theory Spec2Isabelle
  imports Main "HOL-Library.Sublist"
begin

section \<open>cprofilev: the live report engine of \<^verbatim>\<open>src/cprofilev.py\<close>\<close>

text \<open>
  The development embeds the classes \<^verbatim>\<open>Stats\<close> and \<^verbatim>\<open>CProfileV\<close> of
  \<^verbatim>\<open>cprofilev.py\<close>.  Python \<^verbatim>\<open>str\<close> values are \<^typ>\<open>string\<close> (characters
  up to U+00FF), \<^verbatim>\<open>None\<close>-able values are \<^typ>\<open>string option\<close>, and a \<^verbatim>\<open>dict\<close>
  is an association list in insertion order (the iteration order of Python 3.7 and later).
\<close>

subsection \<open>Module constants\<close>

definition SORT_KEY :: string where
  "SORT_KEY = ''sort''"

definition FUNC_NAME_KEY :: string where
  "FUNC_NAME_KEY = ''func_name''"

definition FUNC_LOC_KEY :: string where
  "FUNC_LOC_KEY = ''func_loc''"

subsection \<open>Dictionaries\<close>

text \<open>
  \<^verbatim>\<open>d[key] = val\<close>: an existing key keeps its position and takes the new value, a new
  key is appended.
\<close>

fun dict_set :: "('k \<times> 'v) list \<Rightarrow> 'k \<Rightarrow> 'v \<Rightarrow> ('k \<times> 'v) list" where
  "dict_set [] key val = [(key, val)]"
| "dict_set ((k, v) # d) key val =
     (if k = key then (k, val) # d else (k, v) # dict_set d key val)"

text \<open>
  \<^verbatim>\<open>dict(bottle.request.query)\<close>.  The request's query is the list of decoded
  \<^verbatim>\<open>key=value\<close> pairs of the URL; the dictionary made from it has each key once, at
  the place of its first occurrence and with the value of its last one.  Every value
  is a string, never \<^verbatim>\<open>None\<close>.
\<close>

definition request_dict :: "(string \<times> string) list \<Rightarrow> (string \<times> string option) list" where
  "request_dict request_query = fold (\<lambda>(key, val) d. dict_set d key (Some val)) request_query []"

text \<open>\<^verbatim>\<open>for key, val in keyvals.items(): query[key] = val\<close>\<close>

definition overlay ::
  "(string \<times> string option) list \<Rightarrow> (string \<times> string option) list \<Rightarrow> (string \<times> string option) list" where
  "overlay query keyvals = fold (\<lambda>(key, val) d. dict_set d key val) keyvals query"

subsection \<open>\<^verbatim>\<open>Stats.get_updated_href\<close>\<close>

text \<open>
  \<^verbatim>\<open>
  href = '?'
  query = dict(bottle.request.query)
  for key, val in keyvals.items():
      query[key] = val
  for key in query.keys():
      if query[key] is not None:
          href += '%s=%s&' % (key, query[key])
  return href[:-1]
  \<close>
  The first argument is the query of the request being served (a global of the web
  framework in the source).
\<close>

definition href_append :: "string \<times> string option \<Rightarrow> string \<Rightarrow> string" where
  "href_append kv href =
     (case snd kv of None \<Rightarrow> href | Some val \<Rightarrow> href @ fst kv @ ''='' @ val @ ''&'')"

definition get_updated_href ::
  "(string \<times> string) list \<Rightarrow> (string \<times> string option) list \<Rightarrow> string" where
  "get_updated_href request_query keyvals =
     (let query = overlay (request_dict request_query) keyvals;
          href = fold href_append query ''?''
      in butlast href)"

text \<open>
  The parameters a link carries: the entries of the overlaid dictionary whose value is
  not \<^verbatim>\<open>None\<close>, in order.  Following the link makes them the next request's query.
\<close>

definition carried :: "(string \<times> string option) list \<Rightarrow> (string \<times> string) list" where
  "carried query = concat (map (\<lambda>(key, val). case val of None \<Rightarrow> [] | Some v \<Rightarrow> [(key, v)]) query)"

definition link_query ::
  "(string \<times> string) list \<Rightarrow> (string \<times> string option) list \<Rightarrow> (string \<times> string) list" where
  "link_query request_query keyvals = carried (overlay (request_dict request_query) keyvals)"

text \<open>\<^verbatim>\<open>sep.join(parts)\<close>\<close>

fun str_join :: "string \<Rightarrow> string list \<Rightarrow> string" where
  "str_join sep [] = []"
| "str_join sep [x] = x"
| "str_join sep (x # y # ys) = x @ sep @ str_join sep (y # ys)"

text \<open>
  The link-target rule in the words of the specification: overlay the changed keys,
  drop every parameter whose resulting value is empty or absent, join the rest as
  \<^verbatim>\<open>key=value\<close> pairs separated by \<^verbatim>\<open>&\<close>.
\<close>

definition spec_query_string ::
  "(string \<times> string) list \<Rightarrow> (string \<times> string option) list \<Rightarrow> string" where
  "spec_query_string request_query keyvals =
     str_join ''&'' (map (\<lambda>(key, val). key @ ''='' @ val)
       (filter (\<lambda>(key, val). val \<noteq> []) (link_query request_query keyvals)))"

text \<open>
  A dictionary \<^verbatim>\<open>e\<close> already agrees with an overlay when every entry of the overlay is
  in \<^verbatim>\<open>e\<close>, or clears a key that \<^verbatim>\<open>e\<close> does not have.
\<close>

definition agrees :: "(string \<times> string option) list \<Rightarrow> (string \<times> string option) list \<Rightarrow> bool" where
  "agrees e kv \<longleftrightarrow> (\<forall>(k, v) \<in> set kv. (k, v) \<in> set e \<or> (v = None \<and> k \<notin> fst ` set e))"

subsection \<open>Python string operations\<close>

definition LF :: char where
  "LF = CHR 0x0A"

definition CR :: char where
  "CR = CHR 0x0D"

text \<open>\<^verbatim>\<open>s.find(sub)\<close>: the index of the first occurrence, \<^verbatim>\<open>-1\<close> (here \<open>None\<close>) when there is none.\<close>

fun str_find :: "string \<Rightarrow> string \<Rightarrow> nat option" where
  "str_find [] sub = (if sub = [] then Some 0 else None)"
| "str_find (c # cs) sub =
     (if prefix sub (c # cs) then Some 0 else map_option Suc (str_find cs sub))"

text \<open>
  \<^verbatim>\<open>s.replace(old, new)\<close>: every occurrence of \<^verbatim>\<open>old\<close>, found from the left without
  overlap, is replaced.  An empty \<^verbatim>\<open>old\<close> matches before every character and at the end.
\<close>

function str_replace :: "string \<Rightarrow> string \<Rightarrow> string \<Rightarrow> string" where
  "str_replace s old new =
     (if old = [] then new @ concat (map (\<lambda>c. c # new) s)
      else if s = [] then []
      else if prefix old s then new @ str_replace (drop (length old) s) old new
      else hd s # str_replace (tl s) old new)"
  by pat_completeness auto
termination
  by (relation "measure (\<lambda>(s, old, new). length s)") (auto simp: neq_Nil_conv)

declare str_replace.simps [simp del]

text \<open>
  \<^verbatim>\<open>s.splitlines(True)\<close>: the lines of \<^verbatim>\<open>s\<close>, each with its line break.  The line
  breaks of a Python 3 string among the characters up to U+00FF are \<^verbatim>\<open>\n\<close>, \<^verbatim>\<open>\r\<close>,
  \<^verbatim>\<open>\r\n\<close>, \<^verbatim>\<open>\v\<close>, \<^verbatim>\<open>\f\<close>, \<^verbatim>\<open>\x1c\<close>, \<^verbatim>\<open>\x1d\<close>, \<^verbatim>\<open>\x1e\<close> and \<^verbatim>\<open>\x85\<close>.
\<close>

definition is_linebreak :: "char \<Rightarrow> bool" where
  "is_linebreak c \<longleftrightarrow>
     c = LF \<or> c = CR \<or> c = CHR 0x0B \<or> c = CHR 0x0C \<or> c = CHR 0x1C \<or> c = CHR 0x1D
     \<or> c = CHR 0x1E \<or> c = CHR 0x85"

fun splitlines_from :: "string \<Rightarrow> string \<Rightarrow> string list" where
  "splitlines_from cur [] = (if cur = [] then [] else [cur])"
| "splitlines_from cur [c] = [cur @ [c]]"
| "splitlines_from cur (c # d # cs) =
     (if c = CR \<and> d = LF then (cur @ [c, d]) # splitlines_from [] cs
      else if is_linebreak c then (cur @ [c]) # splitlines_from [] (d # cs)
      else splitlines_from (cur @ [c]) (d # cs))"

definition splitlines :: "string \<Rightarrow> string list" where
  "splitlines s = splitlines_from [] s"

subsection \<open>The web framework's templates\<close>

text \<open>
  \<^verbatim>\<open>bottle.html_escape\<close> replaces \<^verbatim>\<open>&\<close>, \<^verbatim>\<open><\<close>, \<^verbatim>\<open>>\<close>, \<^verbatim>\<open>"\<close> and \<^verbatim>\<open>'\<close> by their
  entities (\<^verbatim>\<open>&\<close> first, so no entity is escaped twice); every \<^verbatim>\<open>{{ x }}\<close> of a
  template is escaped so, and \<^verbatim>\<open>{{ !x }}\<close> is inserted as it is.
\<close>

definition html_escape_char :: "char \<Rightarrow> string" where
  "html_escape_char c =
     (if c = CHR ''&'' then ''&amp;''
      else if c = CHR ''<'' then ''&lt;''
      else if c = CHR ''>'' then ''&gt;''
      else if c = CHR 0x22 then ''&quot;''
      else if c = CHR 0x27 then ''&#039;''
      else [c])"

definition html_escape :: "string \<Rightarrow> string" where
  "html_escape s = concat (map html_escape_char s)"

text \<open>\<^verbatim>\<open>bottle.template("<a href='{{ url }}'>{{ key }}</a>", url=url, key=text)\<close>\<close>

definition link_template :: "string \<Rightarrow> string \<Rightarrow> string" where
  "link_template url text = ''<a href='' @ [CHR 0x27] @ html_escape url @ [CHR 0x27] @ ''>''
     @ html_escape text @ ''</a>''"

text \<open>
  \<^verbatim>\<open>bottle.template("{{ prefix }}{{ !full_url_link }}({{ !url_link }})\n", ...)\<close>
\<close>

definition line_template :: "string \<Rightarrow> string \<Rightarrow> string \<Rightarrow> string" where
  "line_template prefix_text full_url_link url_link =
     html_escape prefix_text @ full_url_link @ ''('' @ url_link @ '')'' @ [LF]"

subsection \<open>\<^verbatim>\<open>Stats.process_line\<close>\<close>

definition IGNORE_FUNC_NAMES :: "string list" where
  "IGNORE_FUNC_NAMES = [''function'', '''']"

definition SORT_ARGS :: "(string \<times> string) list" where
  "SORT_ARGS = [(''ncalls'', ''calls''), (''tottime'', ''time''), (''cumtime'', ''cumulative''),
     (''filename'', ''module''), (''lineno'', ''nfl'')]"

definition FUNCTION_SIG_HEADER :: string where
  "FUNCTION_SIG_HEADER = ''filename:lineno(function)''"

text \<open>
  \<^verbatim>\<open>re.search(r'ncalls|tottime|cumtime', line)\<close> succeeds when one of the three words
  occurs in the line.
\<close>

definition is_header_line :: "string \<Rightarrow> bool" where
  "is_header_line line \<longleftrightarrow>
     sublist ''ncalls'' line \<or> sublist ''tottime'' line \<or> sublist ''cumtime'' line"

text \<open>
  \<^verbatim>\<open>re.search(r'(.*)\((.*)\)$', line)\<close>, giving groups 1 and 2.  No flag is set: \<^verbatim>\<open>$\<close>
  matches at the end of the string and before a newline that ends it, and \<^verbatim>\<open>.\<close>
  matches every character but the newline.  So the closing parenthesis is the last
  character of the line without its final newline, the match lies after the last
  newline before it, it starts as far left as that allows, and the greedy group 1
  ends at the last opening parenthesis before the closing one.
\<close>

definition stats_line_match :: "string \<Rightarrow> (string \<times> string) option" where
  "stats_line_match line =
     (let body = (if line \<noteq> [] \<and> last line = LF then butlast line else line);
          seg = rev (takeWhile (\<lambda>c. c \<noteq> LF) (rev body))
      in if seg \<noteq> [] \<and> last seg = CHR '')'' \<and> CHR ''('' \<in> set (butlast seg) then
           (let inner = butlast seg;
                func_name = rev (takeWhile (\<lambda>c. c \<noteq> CHR ''('') (rev inner));
                prefix_text = take (length inner - length func_name - 1) inner
            in Some (prefix_text, func_name))
         else None)"

text \<open>
  The header step of \<^verbatim>\<open>process_line\<close>: each column word of \<^verbatim>\<open>SORT_ARGS\<close>, in the
  order of the dictionary, is replaced by a link that sorts by the column.
\<close>

definition format_header :: "(string \<times> string) list \<Rightarrow> string \<Rightarrow> string" where
  "format_header rq line =
     fold (\<lambda>(key, val) line.
        str_replace line key (link_template (get_updated_href rq [(SORT_KEY, Some val)]) key))
       SORT_ARGS line"

text \<open>
  \<^verbatim>\<open>process_line(line, info)\<close>.  The only entry \<^verbatim>\<open>info\<close> ever has is
  \<^verbatim>\<open>'func_col_pos'\<close>, so \<^verbatim>\<open>info\<close> is its value, \<open>None\<close> while the key is missing; the
  function returns the new line and \<^verbatim>\<open>info\<close> as it leaves it.  A slice \<^verbatim>\<open>p[n:]\<close> is
  \<^term>\<open>drop n p\<close> and \<^verbatim>\<open>p[:n]\<close> is \<^term>\<open>take n p\<close>, the offset being a result of
  \<^verbatim>\<open>find\<close> and so not negative.
\<close>

definition process_line ::
  "(string \<times> string) list \<Rightarrow> string \<Rightarrow> nat option \<Rightarrow> string \<times> nat option" where
  "process_line rq line info =
     (let info1 = (if is_header_line line \<and> info = None
                   then str_find line FUNCTION_SIG_HEADER else info);
          line1 = (if is_header_line line then format_header rq line else line)
      in case stats_line_match line1 of
           None \<Rightarrow> (line1, info1)
         | Some (prefix_text, func_name) \<Rightarrow>
             if func_name \<in> set IGNORE_FUNC_NAMES then (line1, info1)
             else
               (let func_loc = (case info1 of None \<Rightarrow> [] | Some col \<Rightarrow> drop col prefix_text);
                    prefix1 = (case info1 of None \<Rightarrow> prefix_text | Some col \<Rightarrow> take col prefix_text);
                    full_url_link =
                      (case info1 of
                         None \<Rightarrow> []
                       | Some col \<Rightarrow>
                           link_template
                             (get_updated_href rq
                                [(FUNC_LOC_KEY, Some func_loc), (FUNC_NAME_KEY, Some func_name)])
                             func_loc);
                    url_link =
                      link_template
                        (get_updated_href rq [(FUNC_LOC_KEY, None), (FUNC_NAME_KEY, Some func_name)])
                        func_name
                in (line_template prefix1 full_url_link url_link, info1)))"

text \<open>
  The loop of \<^verbatim>\<open>Stats.read\<close> over the lines, \<^verbatim>\<open>info\<close> going from each line to the
  next, and the text \<^verbatim>\<open>read\<close> returns for the raw text taken from the stream.
\<close>

fun process_lines :: "(string \<times> string) list \<Rightarrow> string list \<Rightarrow> nat option \<Rightarrow> string list" where
  "process_lines rq [] info = []"
| "process_lines rq (line # lines) info =
     fst (process_line rq line info) # process_lines rq lines (snd (process_line rq line info))"

definition format_report :: "(string \<times> string) list \<Rightarrow> string \<Rightarrow> string" where
  "format_report rq output = concat (process_lines rq (splitlines output) None)"

text \<open>
  The column offset in effect when a line of a read is formatted.  \<open>info_at\<close> runs
  \<^verbatim>\<open>info\<close> through the lines before it, as the loop of \<^verbatim>\<open>read\<close> does.  A marker header
  is a line on which the header step fires and that contains
  \<^verbatim>\<open>filename:lineno(function)\<close>; \<open>col_offset\<close> is the place of the marker in the first
  marker header of the lines.
\<close>

fun info_at :: "(string \<times> string) list \<Rightarrow> string list \<Rightarrow> nat option \<Rightarrow> nat option" where
  "info_at rq [] info = info"
| "info_at rq (line # lines) info = info_at rq lines (snd (process_line rq line info))"

definition marker_header :: "string \<Rightarrow> bool" where
  "marker_header line \<longleftrightarrow> is_header_line line \<and> sublist FUNCTION_SIG_HEADER line"

definition col_offset :: "string list \<Rightarrow> nat option" where
  "col_offset lines =
     (case find marker_header lines of
        None \<Rightarrow> None
      | Some header \<Rightarrow> str_find header FUNCTION_SIG_HEADER)"

subsection \<open>Reading the formatted text as a browser does\<close>

text \<open>
  The number of hyperlinks of a text is the number of places where an anchor tag
  opens.  Its visible text is what is left when the tags are taken out and the
  entities are decoded.
\<close>

fun count_links :: "string \<Rightarrow> nat" where
  "count_links [] = 0"
| "count_links (c # cs) = (if prefix ''<a href='' (c # cs) then 1 else 0) + count_links cs"

fun strip_tags :: "bool \<Rightarrow> string \<Rightarrow> string" where
  "strip_tags in_tag [] = []"
| "strip_tags True (c # cs) = (if c = CHR ''>'' then strip_tags False cs else strip_tags True cs)"
| "strip_tags False (c # cs) = (if c = CHR ''<'' then strip_tags True cs else c # strip_tags False cs)"

function html_unescape :: "string \<Rightarrow> string" where
  "html_unescape s =
     (if s = [] then []
      else if prefix ''&amp;'' s then CHR ''&'' # html_unescape (drop 5 s)
      else if prefix ''&lt;'' s then CHR ''<'' # html_unescape (drop 4 s)
      else if prefix ''&gt;'' s then CHR ''>'' # html_unescape (drop 4 s)
      else if prefix ''&quot;'' s then CHR 0x22 # html_unescape (drop 6 s)
      else if prefix ''&#039;'' s then CHR 0x27 # html_unescape (drop 6 s)
      else hd s # html_unescape (tl s))"
  by pat_completeness auto
termination
  by (relation "measure length") (auto simp: neq_Nil_conv)

declare html_unescape.simps [simp del]

definition visible_text :: "string \<Rightarrow> string" where
  "visible_text s = html_unescape (strip_tags False s)"

subsection \<open>Example reports\<close>

text \<open>
  Rows as the library prints them: the title row of \<^verbatim>\<open>print_stats\<close>, a report of one
  function under it, the same for a function that is itself called \<^verbatim>\<open>function\<close>, and
  the output of \<^verbatim>\<open>print_callers\<close> for a function \<^verbatim>\<open>helper\<close> called by \<^verbatim>\<open>get_ncalls\<close>.
\<close>

definition title_row :: string where
  "title_row = ''   ncalls  tottime  percall  cumtime  percall filename:lineno(function)\<newline>''"

definition stats_report :: string where
  "stats_report = title_row @ ''        1    0.000    0.000    0.000    0.000 <string>:1(<module>)\<newline>''"


definition callers_report :: string where
  "callers_report =
     ''   Ordered by: cumulative time\<newline>\<newline>Function        was called by...\<newline>''
     @ ''                    ncalls  tottime  cumtime\<newline>''
     @ ''m.py:1(helper)  <-       1    0.000    0.000  m.py:3(get_ncalls)\<newline>\<newline>\<newline>''"

subsection \<open>The output stream\<close>

text \<open>
  An \<^verbatim>\<open>io.StringIO\<close>: its text and its position.  \<^verbatim>\<open>write\<close> puts the string at the
  position, over what is there, after padding a shorter text with NUL characters, and
  moves the position behind it; \<^verbatim>\<open>getvalue\<close> is the whole text; \<^verbatim>\<open>truncate()\<close> cuts
  the text at the position.
\<close>

record StringIO =
  sio_buf :: string
  sio_pos :: nat

definition sio_empty :: StringIO where
  "sio_empty = \<lparr>sio_buf = [], sio_pos = 0\<rparr>"

definition sio_write :: "string \<Rightarrow> StringIO \<Rightarrow> StringIO" where
  "sio_write s io =
     (let padded = sio_buf io @ replicate (sio_pos io - length (sio_buf io)) (CHR 0x00)
      in \<lparr>sio_buf = take (sio_pos io) padded @ s @ drop (sio_pos io + length s) padded,
          sio_pos = sio_pos io + length s\<rparr>)"

definition sio_getvalue :: "StringIO \<Rightarrow> string" where
  "sio_getvalue io = sio_buf io"

definition sio_seek :: "nat \<Rightarrow> StringIO \<Rightarrow> StringIO" where
  "sio_seek n io = io\<lparr>sio_pos := n\<rparr>"

definition sio_truncate :: "StringIO \<Rightarrow> StringIO" where
  "sio_truncate io = io\<lparr>sio_buf := take (sio_pos io) (sio_buf io)\<rparr>"

subsection \<open>The statistics library\<close>

text \<open>
  What the wrapper uses of \<^verbatim>\<open>pstats.Stats\<close>.  The object holds the table it loaded
  when it was constructed (\<^verbatim>\<open>self.stats\<close>, one entry per function, the function being
  file, line and name) and the sort order asked for last.  The content of an entry
  (counts, times, callers) is left open.
\<close>

datatype py_error = KeyError string | TypeError

type_synonym func = "string \<times> nat \<times> string"

record 'e pstats =
  pst_stats :: "(func \<times> 'e) list"
  pst_sort :: "((nat \<times> int) list \<times> string) option"

text \<open>
  \<^verbatim>\<open>pstats.Stats(arg, stream=...)\<close> loads the table once, from the file or from the
  profiler given (\<^verbatim>\<open>load_stats\<close>: \<^verbatim>\<open>arg.create_stats(); self.stats = arg.stats\<close>), and
  raises \<^verbatim>\<open>TypeError\<close> when the table is empty.  The argument here is the table the
  source yields at that moment.
\<close>

definition pstats_Stats :: "(func \<times> 'e) list \<Rightarrow> py_error + 'e pstats" where
  "pstats_Stats table =
     (if table = [] then Inl TypeError else Inr \<lparr>pst_stats = table, pst_sort = None\<rparr>)"

text \<open>\<^verbatim>\<open>Stats.sort_arg_dict_default\<close>\<close>

definition sort_arg_dict_default :: "(string \<times> (nat \<times> int) list \<times> string) list" where
  "sort_arg_dict_default =
     [(''calls'', [(1, -1)], ''call count''),
      (''ncalls'', [(1, -1)], ''call count''),
      (''cumtime'', [(3, -1)], ''cumulative time''),
      (''cumulative'', [(3, -1)], ''cumulative time''),
      (''filename'', [(4, 1)], ''file name''),
      (''line'', [(5, 1)], ''line number''),
      (''module'', [(4, 1)], ''file name''),
      (''name'', [(6, 1)], ''function name''),
      (''nfl'', [(6, 1), (4, 1), (5, 1)], ''name/file/line''),
      (''pcalls'', [(0, -1)], ''primitive call count''),
      (''stdname'', [(7, 1)], ''standard name''),
      (''time'', [(2, -1)], ''internal time''),
      (''tottime'', [(2, -1)], ''internal time'')]"

text \<open>
  \<^verbatim>\<open>get_sort_arg_defs\<close> expands the abbreviations that are unique:
  \<^verbatim>\<open>
  for word, tup in self.sort_arg_dict_default.items():
      fragment = word
      while fragment:
          if fragment in dict:
              bad_list[fragment] = 0
              break
          dict[fragment] = tup
          fragment = fragment[:-1]
  for word in bad_list:
      del dict[word]
  \<close>
\<close>

function add_fragments ::
  "string \<Rightarrow> 'a \<Rightarrow> (string \<times> 'a) list \<times> string list \<Rightarrow> (string \<times> 'a) list \<times> string list" where
  "add_fragments fragment tup (dict, bad_list) =
     (if fragment = [] then (dict, bad_list)
      else if fragment \<in> set (map fst dict) then (dict, List.insert fragment bad_list)
      else add_fragments (butlast fragment) tup (dict_set dict fragment tup, bad_list))"
  by pat_completeness auto
termination
  by (relation "measure (\<lambda>(fragment, tup, acc). length fragment)") auto

declare add_fragments.simps [simp del]

definition get_sort_arg_defs :: "(string \<times> (nat \<times> int) list \<times> string) list" where
  "get_sort_arg_defs =
     (let (dict, bad_list) =
            fold (\<lambda>(word, tup) acc. add_fragments word tup acc) sort_arg_dict_default ([], [])
      in filter (\<lambda>(word, tup). word \<notin> set bad_list) dict)"

text \<open>
  \<^verbatim>\<open>sort_stats(word)\<close> with one string: \<^verbatim>\<open>sort_arg_defs[word]\<close> raises \<^verbatim>\<open>KeyError\<close> for a
  word that is not in the expanded dictionary.
\<close>

definition sort_stats :: "string \<Rightarrow> 'e pstats \<Rightarrow> py_error + 'e pstats" where
  "sort_stats word p =
     (case map_of get_sort_arg_defs word of
        None \<Rightarrow> Inl (KeyError word)
      | Some (sort_tuple, sort_type) \<Rightarrow> Inr (p\<lparr>pst_sort := Some (sort_tuple, sort_type)\<rparr>))"

text \<open>
  The three report printers write a text to the stream.  The text is a function of the
  statistics object and of the restrictions; its layout is the library's and is a
  parameter here.
\<close>

record 'e printer =
  print_stats :: "'e pstats \<Rightarrow> string list \<Rightarrow> string"
  print_callers :: "'e pstats \<Rightarrow> string list \<Rightarrow> string"
  print_callees :: "'e pstats \<Rightarrow> string list \<Rightarrow> string"

text \<open>\<^verbatim>\<open>"%d" % n\<close>\<close>

function show_nat :: "nat \<Rightarrow> string" where
  "show_nat n = (if n < 10 then [char_of (48 + n)] else show_nat (n div 10) @ [char_of (48 + n mod 10)])"
  by pat_completeness auto
termination
  by (relation "measure id") auto

declare show_nat.simps [simp del]

text \<open>\<^verbatim>\<open>func_std_string\<close>: the signature a report prints for a function.\<close>

definition func_std_string :: "func \<Rightarrow> string" where
  "func_std_string f =
     (case f of (file, line, name) \<Rightarrow>
        if file = ''~'' \<and> line = 0 then
          (if prefix ''<'' name \<and> suffix ''>'' name then ''{'' @ butlast (tl name) @ ''}'' else name)
        else file @ '':'' @ show_nat line @ ''('' @ name @ '')'')"

subsection \<open>Restrictions as regular expressions\<close>













subsection \<open>The class \<^verbatim>\<open>Stats\<close>\<close>

text \<open>
  The data source given to \<^verbatim>\<open>Stats\<close> is a profile file or the profiler object of the
  running program.  The world tells which table each source yields now; it changes as
  the profiled program runs.
\<close>

datatype source = ProfileOutput string | ProfileObj

type_synonym 'e world = "source \<Rightarrow> (func \<times> 'e) list"

record 'e Stats =
  profile :: source
  stream :: StringIO
  stats :: "'e pstats"

text \<open>
  \<^verbatim>\<open>
  def __init__(self, profile_output=None, profile_obj=None):
      self.profile = profile_output or profile_obj
      self.stream = StringIO()
      self.stats = pstats.Stats(self.profile, stream=self.stream)
  \<close>
\<close>

definition Stats_init :: "'e world \<Rightarrow> source \<Rightarrow> py_error + 'e Stats" where
  "Stats_init w src =
     (case pstats_Stats (w src) of
        Inl e \<Rightarrow> Inl e
      | Inr p \<Rightarrow> Inr \<lparr>profile = src, stream = sio_empty, stats = p\<rparr>)"

text \<open>
  \<^verbatim>\<open>
  def read_stream(self):
      value = self.stream.getvalue()
      self.stream.seek(0)
      self.stream.truncate()
      return value
  \<close>
\<close>

definition read_stream :: "'e Stats \<Rightarrow> string \<times> 'e Stats" where
  "read_stream s =
     (let val = sio_getvalue (stream s)
      in (val, s\<lparr>stream := sio_truncate (sio_seek 0 (stream s))\<rparr>))"

text \<open>\<^verbatim>\<open>Stats.read\<close>; the first argument is the query of the request being served.\<close>

definition read :: "(string \<times> string) list \<Rightarrow> 'e Stats \<Rightarrow> string \<times> 'e Stats" where
  "read rq s = (let (output, s1) = read_stream s in (format_report rq output, s1))"

text \<open>
  \<^verbatim>\<open>show\<close>, \<^verbatim>\<open>show_callers\<close> and \<^verbatim>\<open>show_callees\<close> have the library print to the stream
  and return the object.
\<close>

definition "show" :: "'e printer \<Rightarrow> string list \<Rightarrow> 'e Stats \<Rightarrow> 'e Stats" where
  "show lib restrictions s = s\<lparr>stream := sio_write (print_stats lib (stats s) restrictions) (stream s)\<rparr>"

definition show_callers :: "'e printer \<Rightarrow> string list \<Rightarrow> 'e Stats \<Rightarrow> 'e Stats" where
  "show_callers lib restriction s =
     s\<lparr>stream := sio_write (print_callers lib (stats s) restriction) (stream s)\<rparr>"

definition show_callees :: "'e printer \<Rightarrow> string list \<Rightarrow> 'e Stats \<Rightarrow> 'e Stats" where
  "show_callees lib restriction s =
     s\<lparr>stream := sio_write (print_callees lib (stats s) restriction) (stream s)\<rparr>"

text \<open>
  \<^verbatim>\<open>
  def sort(self, sort=''):
      sort = sort or self.DEFAULT_SORT_ARG
      self.stats.sort_stats(sort)
      return self
  \<close>
\<close>

definition DEFAULT_SORT_ARG :: string where
  "DEFAULT_SORT_ARG = ''cumulative''"

definition Stats_sort :: "string \<Rightarrow> 'e Stats \<Rightarrow> py_error + 'e Stats" where
  "Stats_sort sort_arg s =
     (let sort1 = (if sort_arg = [] then DEFAULT_SORT_ARG else sort_arg)
      in case sort_stats sort1 (stats s) of
           Inl e \<Rightarrow> Inl e
         | Inr p \<Rightarrow> Inr (s\<lparr>stats := p\<rparr>))"

subsection \<open>\<^verbatim>\<open>CProfileV.route_handler\<close>\<close>







subsection \<open>A session over time\<close>

text \<open>
  What happens to one \<^verbatim>\<open>Stats\<close> object: the profiled program runs on, so that the
  session's source yields a new table, or a report is rendered and read
  (\<^verbatim>\<open>show(...).read()\<close> and the like).  \<open>session_run\<close> gives the texts of the reads.
\<close>

datatype render = Show "string list" | ShowCallers "string list" | ShowCallees "string list"

fun render_text :: "'e printer \<Rightarrow> 'e pstats \<Rightarrow> render \<Rightarrow> string" where
  "render_text lib p (Show restrictions) = print_stats lib p restrictions"
| "render_text lib p (ShowCallers restrictions) = print_callers lib p restrictions"
| "render_text lib p (ShowCallees restrictions) = print_callees lib p restrictions"

fun do_render :: "'e printer \<Rightarrow> render \<Rightarrow> 'e Stats \<Rightarrow> 'e Stats" where
  "do_render lib (Show restrictions) s = show lib restrictions s"
| "do_render lib (ShowCallers restrictions) s = show_callers lib restrictions s"
| "do_render lib (ShowCallees restrictions) s = show_callees lib restrictions s"

datatype 'e event = Advance "(func \<times> 'e) list" | Render render

fun renders_of :: "'e event list \<Rightarrow> render list" where
  "renders_of [] = []"
| "renders_of (Advance table # evs) = renders_of evs"
| "renders_of (Render r # evs) = r # renders_of evs"

fun session_run ::
  "'e printer \<Rightarrow> (string \<times> string) list \<Rightarrow> 'e event list \<Rightarrow> 'e world \<times> 'e Stats \<Rightarrow> string list" where
  "session_run lib rq [] (w, s) = []"
| "session_run lib rq (Advance table # evs) (w, s) = session_run lib rq evs (w(profile s := table), s)"
| "session_run lib rq (Render r # evs) (w, s) =
     fst (read rq (do_render lib r s)) # session_run lib rq evs (w, snd (read rq (do_render lib r s)))"

text \<open>
  The session in the words of the specification: each render re-reads the live source
  at the time of the call, so its text is that of the table the source yields then.
\<close>

fun spec_session_run ::
  "'e printer \<Rightarrow> (string \<times> string) list \<Rightarrow> 'e event list \<Rightarrow> 'e world \<times> 'e Stats \<Rightarrow> string list" where
  "spec_session_run lib rq [] (w, s) = []"
| "spec_session_run lib rq (Advance table # evs) (w, s) =
     spec_session_run lib rq evs (w(profile s := table), s)"
| "spec_session_run lib rq (Render r # evs) (w, s) =
     format_report rq (render_text lib ((stats s)\<lparr>pst_stats := w (profile s)\<rparr>) r)
       # spec_session_run lib rq evs (w, s)"

text \<open>
  For the examples: a table with one function, the same after a second function was
  called, and a printer whose three reports list the signatures of the loaded table.
\<close>

definition table_one :: "(func \<times> unit) list" where
  "table_one = [((''m.py'', 10, ''foo''), ())]"

definition table_two :: "(func \<times> unit) list" where
  "table_two = [((''m.py'', 10, ''foo''), ()), ((''m.py'', 20, ''bar''), ())]"

definition world_one :: "unit world" where
  "world_one src = table_one"

definition listing :: "unit pstats \<Rightarrow> string list \<Rightarrow> string" where
  "listing p restrictions = concat (map (\<lambda>(f, e). func_std_string f @ [LF]) (pst_stats p))"

definition listing_printer :: "unit printer" where
  "listing_printer = \<lparr>print_stats = listing, print_callers = listing, print_callees = listing\<rparr>"

section \<open>Properties\<close>

subsection \<open>Dictionaries and link targets\<close>

lemma fold_href_append:
  "fold href_append query acc = acc @ concat (map (\<lambda>(key, val). key @ ''='' @ val @ ''&'') (carried query))"
  by (induction query arbitrary: acc) (auto simp: href_append_def carried_def split: option.splits)

lemma butlast_joined:
  "ps \<noteq> [] \<Longrightarrow> butlast (acc @ concat (map (\<lambda>p. f p @ ''&'') ps)) = acc @ str_join ''&'' (map f ps)"
proof (induction ps arbitrary: acc)
  case Nil
  then show ?case by simp
next
  case (Cons p ps)
  show ?case
  proof (cases ps)
    case Nil
    then show ?thesis by (simp add: butlast_append)
  next
    case (Cons q qs)
    then have "butlast ((acc @ f p @ ''&'') @ concat (map (\<lambda>p. f p @ ''&'') ps))
      = (acc @ f p @ ''&'') @ str_join ''&'' (map f ps)"
      using Cons.IH [of "acc @ f p @ ''&''"] by simp
    then show ?thesis using Cons by simp
  qed
qed

lemma dict_set_keys: "fst ` set (dict_set d k v) = insert k (fst ` set d)"
  by (induction d k v rule: dict_set.induct) auto

lemma dict_set_distinct: "distinct (map fst d) \<Longrightarrow> distinct (map fst (dict_set d k v))"
proof (induction d k v rule: dict_set.induct)
  case (1 key val)
  then show ?case by simp
next
  case (2 k v d key val)
  then show ?case using dict_set_keys [of d key val] by (auto simp: image_iff)
qed

lemma map_of_dict_set: "map_of (dict_set d k v) = (map_of d)(k \<mapsto> v)"
  by (induction d k v rule: dict_set.induct) (auto simp: fun_eq_iff)

lemma overlay_distinct: "distinct (map fst d) \<Longrightarrow> distinct (map fst (overlay d kv))"
  unfolding overlay_def
  by (induction kv arbitrary: d) (auto simp: dict_set_distinct)

lemma map_of_overlay: "map_of (overlay d kv) = map_of d ++ map_of (rev kv)"
  unfolding overlay_def
proof (induction kv arbitrary: d)
  case Nil
  then show ?case by simp
next
  case (Cons p kv)
  obtain k v where p: "p = (k, v)" by (cases p)
  show ?case
    by (simp add: p Cons.IH map_of_dict_set map_add_def fun_eq_iff split: option.splits)
qed

lemma request_dict_distinct: "distinct (map fst (request_dict rq))"
proof -
  have "distinct (map fst d) \<Longrightarrow> distinct (map fst (fold (\<lambda>(key, val) d. dict_set d key (Some val)) rq d))" for d
    by (induction rq arbitrary: d) (auto simp: dict_set_distinct)
  then show ?thesis by (simp add: request_dict_def)
qed

lemma map_of_request_dict: "map_of (request_dict rq) = map_option Some \<circ> map_of (rev rq)"
proof -
  have "map_of (fold (\<lambda>(key, val) d. dict_set d key (Some val)) rq d)
     = map_of d ++ (map_option Some \<circ> map_of (rev rq))" for d
  proof (induction rq arbitrary: d)
    case Nil
    then show ?case by (simp add: fun_eq_iff map_add_def)
  next
    case (Cons p rq)
    obtain k v where p: "p = (k, v)" by (cases p)
    show ?case
      by (simp add: p Cons.IH map_of_dict_set map_add_def fun_eq_iff split: option.splits)
  qed
  from this [of "[]"] show ?thesis by (simp add: request_dict_def fun_eq_iff map_add_def split: option.splits)
qed

lemma carried_set: "(k, v) \<in> set (carried d) \<longleftrightarrow> (k, Some v) \<in> set d"
  by (induction d) (auto simp: carried_def split: option.splits)

lemma carried_keys_distinct: "distinct (map fst d) \<Longrightarrow> distinct (map fst (carried d))"
proof (induction d)
  case Nil
  then show ?case by (simp add: carried_def)
next
  case (Cons p d)
  obtain k v where p: "p = (k, v)" by (cases p)
  have "carried (p # d) = (case v of None \<Rightarrow> [] | Some x \<Rightarrow> [(k, x)]) @ carried d"
    by (simp add: carried_def p)
  moreover have "k \<notin> fst ` set (carried d)"
    using Cons.prems carried_set [of k _ d] by (force simp: p image_iff)
  ultimately show ?case using Cons by (auto split: option.splits)
qed

lemma carried_map_Some: "carried (map (\<lambda>(k, v). (k, Some v)) c) = c"
  by (induction c) (auto simp: carried_def)

lemma carried_append: "carried (d @ e) = carried d @ carried e"
  by (simp add: carried_def)

lemma dict_set_fresh: "k \<notin> fst ` set d \<Longrightarrow> dict_set d k v = d @ [(k, v)]"
  by (induction d k v rule: dict_set.induct) auto

lemma dict_set_present: "distinct (map fst d) \<Longrightarrow> (k, v) \<in> set d \<Longrightarrow> dict_set d k v = d"
  by (induction d k v rule: dict_set.induct) (auto simp: image_iff)

lemma request_dict_of_distinct:
  assumes dc: "distinct (map fst c)"
  shows "request_dict c = map (\<lambda>(k, v). (k, Some v)) c"
proof -
  have "distinct (map fst c) \<Longrightarrow> fst ` set d \<inter> fst ` set c = {} \<Longrightarrow>
    fold (\<lambda>(key, val) d. dict_set d key (Some val)) c d = d @ map (\<lambda>(k, v). (k, Some v)) c" for d
  proof (induction c arbitrary: d)
    case Nil
    then show ?case by simp
  next
    case (Cons p c)
    obtain k v where p: "p = (k, v)" by (cases p)
    have fresh: "k \<notin> fst ` set d" using Cons.prems(2) by (auto simp: p)
    have "fst ` set (d @ [(k, Some v)]) \<inter> fst ` set c = {}"
      using Cons.prems by (auto simp: p image_iff)
    with Cons.IH [of "d @ [(k, Some v)]"] Cons.prems(1)
    show ?case by (simp add: p dict_set_fresh [OF fresh])
  qed
  from this [of "[]"] dc show ?thesis by (simp add: request_dict_def)
qed

lemma overlay_agrees:
  "distinct (map fst kv) \<Longrightarrow> distinct (map fst e) \<Longrightarrow> agrees e kv \<Longrightarrow> carried (overlay e kv) = carried e"
proof (induction kv arbitrary: e)
  case Nil
  then show ?case by (simp add: overlay_def)
next
  case (Cons p kv)
  obtain k v where p: "p = (k, v)" by (cases p)
  have step: "overlay e (p # kv) = overlay (dict_set e k v) kv"
    by (simp add: overlay_def p)
  have tl: "agrees e kv" using Cons.prems(3) by (simp add: agrees_def)
  have "(k, v) \<in> set e \<or> (v = None \<and> k \<notin> fst ` set e)"
    using Cons.prems(3) by (simp add: agrees_def p)
  then show ?case
  proof
    assume "(k, v) \<in> set e"
    then have "dict_set e k v = e" using Cons.prems(2) by (rule dict_set_present [rotated])
    with Cons.IH [of e] Cons.prems tl show ?thesis by (simp add: step)
  next
    assume a: "v = None \<and> k \<notin> fst ` set e"
    then have e1: "dict_set e k v = e @ [(k, None)]" by (simp add: dict_set_fresh)
    have d1: "distinct (map fst (e @ [(k, None)]))" using Cons.prems(2) a by (auto simp: image_iff)
    have "agrees (e @ [(k, None)]) kv"
      using tl Cons.prems(1) by (force simp: agrees_def p image_iff)
    with Cons.IH [of "e @ [(k, None)]"] Cons.prems(1) d1
    have "carried (overlay (e @ [(k, None)]) kv) = carried (e @ [(k, None)])" by simp
    then show ?thesis by (simp add: step e1 carried_append) (simp add: carried_def)
  qed
qed

lemma overlay_member:
  "distinct (map fst kv) \<Longrightarrow> (k, v) \<in> set kv \<Longrightarrow> distinct (map fst e) \<Longrightarrow> (k, v) \<in> set (overlay e kv)"
proof -
  assume a: "distinct (map fst kv)" "(k, v) \<in> set kv" "distinct (map fst e)"
  have "map_of (rev kv) k = Some v" using a(1,2) by (simp add: distinct_rev rev_map [symmetric])
  then have "map_of (overlay e kv) k = Some v" by (simp add: map_of_overlay map_add_def)
  then show ?thesis by (rule map_of_SomeD)
qed

lemma link_query_idem:
  assumes "distinct (map fst kv)"
  shows "link_query (link_query rq kv) kv = link_query rq kv"
proof -
  let ?d = "overlay (request_dict rq) kv"
  let ?c = "carried ?d"
  let ?e = "map (\<lambda>(k, v). (k, Some v)) ?c"
  have dd: "distinct (map fst ?d)" by (simp add: overlay_distinct request_dict_distinct)
  then have dc: "distinct (map fst ?c)" by (rule carried_keys_distinct)
  have de: "distinct (map fst ?e)" using dc by (simp add: comp_def case_prod_unfold)
  have rd: "request_dict ?c = ?e" using dc by (rule request_dict_of_distinct)
  have "agrees ?e kv"
    unfolding agrees_def
  proof (clarify)
    fix k v assume kv: "(k, v) \<in> set kv" and nin: "\<not> (v = None \<and> k \<notin> fst ` set ?e)"
    have m: "(k, v) \<in> set ?d" using assms kv request_dict_distinct by (rule overlay_member)
    show "(k, v) \<in> set ?e"
    proof (cases v)
      case None
      with nin obtain x where "(k, x) \<in> set ?c" by (auto simp: image_iff)
      then have "(k, Some x) \<in> set ?d" by (simp add: carried_set)
      with m dd None show ?thesis by (auto dest: eq_key_imp_eq_value)
    next
      case (Some x)
      with m have "(k, x) \<in> set ?c" by (simp add: carried_set)
      then show ?thesis using Some by (auto simp: image_iff intro!: bexI [of _ "(k, x)"])
    qed
  qed
  with assms de have "carried (overlay ?e kv) = carried ?e" by (rule overlay_agrees)
  then show ?thesis by (simp add: link_query_def rd carried_map_Some)
qed

lemma href_eq:
  "get_updated_href rq kv =
     (if link_query rq kv = [] then [] else ''?'' @ str_join ''&'' (map (\<lambda>(key, val). key @ ''='' @ val) (link_query rq kv)))"
proof (cases "link_query rq kv = []")
  case True
  then show ?thesis
    by (simp add: get_updated_href_def fold_href_append link_query_def Let_def)
next
  case False
  have "get_updated_href rq kv
    = butlast (''?'' @ concat (map (\<lambda>p. (\<lambda>(key, val). key @ ''='' @ val) p @ ''&'') (link_query rq kv)))"
    by (simp add: get_updated_href_def fold_href_append link_query_def case_prod_unfold Let_def)
  also have "\<dots> = ''?'' @ str_join ''&'' (map (\<lambda>(key, val). key @ ''='' @ val) (link_query rq kv))"
    using False by (rule butlast_joined)
  finally show ?thesis using False by simp
qed

lemma map_of_carried:
  "distinct (map fst d) \<Longrightarrow> map_of (carried d) k = (case map_of d k of Some (Some v) \<Rightarrow> Some v | _ \<Rightarrow> None)"
proof (induction d)
  case Nil
  then show ?case by (simp add: carried_def)
next
  case (Cons p d)
  obtain k' v' where p: "p = (k', v')" by (cases p)
  have c: "carried ((k', v') # d) = (case v' of None \<Rightarrow> [] | Some x \<Rightarrow> [(k', x)]) @ carried d"
    by (simp add: carried_def)
  have "k' \<notin> fst ` set d" using Cons.prems by (auto simp: p)
  then have nk: "map_of d k' = None" by (simp add: map_of_eq_None_iff)
  show ?case using Cons nk by (auto simp: c p split: option.splits)
qed

subsection \<open>Escaping, tags and entities\<close>

lemma html_escape_Nil [simp]: "html_escape [] = []"
  by (simp add: html_escape_def)

lemma html_escape_Cons: "html_escape (c # cs) = html_escape_char c @ html_escape cs"
  by (simp add: html_escape_def)

lemma html_escape_append: "html_escape (xs @ ys) = html_escape xs @ html_escape ys"
  by (simp add: html_escape_def)

lemma html_escape_no_lt: "CHR ''<'' \<notin> set (html_escape s)"
  by (induction s) (auto simp: html_escape_Cons html_escape_char_def)

lemma html_escape_no_gt: "CHR ''>'' \<notin> set (html_escape s)"
  by (induction s) (auto simp: html_escape_Cons html_escape_char_def)

lemma count_links_no_lt: "CHR ''<'' \<notin> set xs \<Longrightarrow> count_links (xs @ ys) = count_links ys"
  by (induction xs) auto

lemma count_links_link_template:
  "count_links (link_template url txt @ rest) = Suc (count_links rest)"
proof -
  have "count_links (html_escape url @ [CHR 0x27] @ ''>'' @ html_escape txt @ ''</a>'' @ rest)
      = count_links ([CHR 0x27] @ ''>'' @ html_escape txt @ ''</a>'' @ rest)"
    by (rule count_links_no_lt) (rule html_escape_no_lt)
  also have "\<dots> = count_links (html_escape txt @ ''</a>'' @ rest)"
    by simp
  also have "\<dots> = count_links (''</a>'' @ rest)"
    by (rule count_links_no_lt) (rule html_escape_no_lt)
  also have "\<dots> = count_links rest"
    by simp
  finally show ?thesis
    by (simp add: link_template_def)
qed

lemma strip_tags_text: "CHR ''<'' \<notin> set xs \<Longrightarrow> strip_tags False (xs @ ys) = xs @ strip_tags False ys"
  by (induction xs) auto

lemma strip_tags_in_tag: "CHR ''>'' \<notin> set xs \<Longrightarrow> strip_tags True (xs @ ys) = strip_tags True ys"
  by (induction xs) auto

lemma strip_tags_link_template:
  "strip_tags False (link_template url txt @ rest) = html_escape txt @ strip_tags False rest"
proof -
  have "strip_tags False (link_template url txt @ rest)
      = strip_tags True (html_escape url @ [CHR 0x27] @ ''>'' @ html_escape txt @ ''</a>'' @ rest)"
    by (simp add: link_template_def)
  also have "\<dots> = strip_tags True ([CHR 0x27] @ ''>'' @ html_escape txt @ ''</a>'' @ rest)"
    by (rule strip_tags_in_tag) (rule html_escape_no_gt)
  also have "\<dots> = strip_tags False (html_escape txt @ ''</a>'' @ rest)"
    by simp
  also have "\<dots> = html_escape txt @ strip_tags False (''</a>'' @ rest)"
    by (rule strip_tags_text) (rule html_escape_no_lt)
  also have "\<dots> = html_escape txt @ strip_tags False rest"
    by simp
  finally show ?thesis .
qed

lemma html_unescape_Nil [simp]: "html_unescape [] = []"
  by (subst html_unescape.simps) simp

lemma html_unescape_plain:
  "c \<noteq> CHR ''&'' \<Longrightarrow> html_unescape (c # cs) = c # html_unescape cs"
  by (subst html_unescape.simps) simp

lemma html_unescape_escape_char:
  "html_unescape (html_escape_char c @ rest) = c # html_unescape rest"
  by (subst html_unescape.simps) (simp add: html_escape_char_def)

lemma html_unescape_escape: "html_unescape (html_escape s @ rest) = s @ html_unescape rest"
  by (induction s) (simp_all add: html_escape_Cons html_unescape_escape_char)

lemma visible_text_escape: "visible_text (html_escape s) = s"
  using strip_tags_text [OF html_escape_no_lt, of s "[]"] html_unescape_escape [of s "[]"]
  by (simp add: visible_text_def)

subsection \<open>The stat-line pattern\<close>

lemma split_at_last:
  assumes "c \<in> set xs"
  shows "xs = take (length xs - length (rev (takeWhile (\<lambda>x. x \<noteq> c) (rev xs))) - 1) xs
           @ [c] @ rev (takeWhile (\<lambda>x. x \<noteq> c) (rev xs))"
proof -
  let ?tw = "takeWhile (\<lambda>x. x \<noteq> c) (rev xs)"
  let ?dw = "dropWhile (\<lambda>x. x \<noteq> c) (rev xs)"
  have "?dw \<noteq> []" using assms by (simp add: dropWhile_eq_Nil_conv)
  moreover have "?dw \<noteq> [] \<Longrightarrow> hd ?dw = c" using hd_dropWhile [of "\<lambda>x. x \<noteq> c" "rev xs"] by simp
  ultimately obtain ds where ds: "?dw = c # ds" by (cases ?dw) auto
  have "rev xs = ?tw @ c # ds" using takeWhile_dropWhile_id [of "\<lambda>x. x \<noteq> c" "rev xs"] ds by simp
  then have xs: "xs = rev ds @ [c] @ rev ?tw" by (metis rev_append rev.simps(2) rev_rev_ident append_assoc)
  then have "length xs = length ds + 1 + length ?tw" by (metis length_append length_rev length_Cons
        add.commute add_Suc_right list.size(3) One_nat_def add.assoc plus_1_eq_Suc)
  then have "take (length xs - length (rev ?tw) - 1) xs = take (length ds) (rev ds @ [c] @ rev ?tw)"
    using xs by simp
  also have "\<dots> = rev ds" by simp
  finally show ?thesis using xs by simp
qed

text \<open>The last segment of a line: what follows the last newline before its final one.\<close>

lemma stats_line_match_Some:
  assumes "stats_line_match line = Some (p, f)"
  shows "rev (takeWhile (\<lambda>c. c \<noteq> LF) (rev (if line \<noteq> [] \<and> last line = LF then butlast line else line)))
           = p @ ''('' @ f @ '')''"
proof -
  let ?body = "if line \<noteq> [] \<and> last line = LF then butlast line else line"
  let ?seg = "rev (takeWhile (\<lambda>c. c \<noteq> LF) (rev ?body))"
  let ?inner = "butlast ?seg"
  let ?f = "rev (takeWhile (\<lambda>c. c \<noteq> CHR ''('') (rev ?inner))"
  from assms have c: "?seg \<noteq> []" "last ?seg = CHR '')''" "CHR ''('' \<in> set ?inner"
    and r: "f = ?f" "p = take (length ?inner - length ?f - 1) ?inner"
    by (auto simp: stats_line_match_def Let_def split: if_splits)
  have "?inner = p @ [CHR ''(''] @ f"
    unfolding r using c(3) by (rule split_at_last)
  moreover have "?seg = ?inner @ [last ?seg]"
    by (rule append_butlast_last_id [OF c(1), symmetric])
  ultimately show ?thesis using c(2) by simp
qed

lemma stats_line_match_line:
  assumes "stats_line_match line = Some (p, f)" and "LF \<notin> set (butlast line)"
  shows "line = p @ ''('' @ f @ '')'' @ (if last line = LF then [LF] else [])"
proof -
  have ne: "line \<noteq> []" using assms(1) by (auto simp: stats_line_match_def)
  show ?thesis
  proof (cases "last line = LF")
    case True
    have "takeWhile (\<lambda>c. c \<noteq> LF) (rev (butlast line)) = rev (butlast line)"
      using assms(2) by (auto simp: takeWhile_eq_all_conv)
    with stats_line_match_Some [OF assms(1)] ne True have "butlast line = p @ ''('' @ f @ '')''"
      by simp
    moreover have "line = butlast line @ [last line]" using ne by simp
    ultimately show ?thesis using True by simp
  next
    case False
    have "LF \<notin> set line"
    proof
      assume "LF \<in> set line"
      moreover have "line = butlast line @ [last line]" using ne by simp
      ultimately have "LF \<in> set (butlast line) \<or> LF = last line"
        by (metis Un_iff insert_iff list.set(2) set_append empty_iff list.set(1))
      with assms(2) False show False by auto
    qed
    then have "takeWhile (\<lambda>c. c \<noteq> LF) (rev line) = rev line"
      by (auto simp: takeWhile_eq_all_conv)
    with stats_line_match_Some [OF assms(1)] False show ?thesis by simp
  qed
qed

subsection \<open>Lines of a text\<close>

lemma concat_splitlines_from: "concat (splitlines_from cur s) = cur @ s"
  by (induction cur s rule: splitlines_from.induct) auto

lemma concat_splitlines: "concat (splitlines s) = s"
  by (simp add: splitlines_def concat_splitlines_from)

lemma splitlines_from_no_inner_LF:
  "l \<in> set (splitlines_from cur s) \<Longrightarrow> LF \<notin> set cur \<Longrightarrow> LF \<notin> set (butlast l)"
proof (induction cur s rule: splitlines_from.induct)
  case (1 cur)
  then show ?case by (auto split: if_splits dest: in_set_butlastD)
next
  case (2 cur c)
  then show ?case by simp
next
  case (3 cur c d cs)
  show ?case
  proof (cases "c = CR \<and> d = LF")
    case True
    with 3 show ?thesis by (auto simp: butlast_append CR_def LF_def)
  next
    case False
    note nf = this
    show ?thesis
    proof (cases "is_linebreak c")
      case True
      with 3 nf show ?thesis by (auto simp: butlast_append)
    next
      case False
      then have "c \<noteq> LF" by (auto simp: is_linebreak_def)
      with 3 nf False show ?thesis by auto
    qed
  qed
qed

lemma splitlines_no_inner_LF: "l \<in> set (splitlines s) \<Longrightarrow> LF \<notin> set (butlast l)"
  using splitlines_from_no_inner_LF [of l "[]" s] by (simp add: splitlines_def)

lemma splitlines_from_sublist:
  "l \<in> set (splitlines_from cur s) \<Longrightarrow> sublist l (cur @ s)"
proof -
  assume "l \<in> set (splitlines_from cur s)"
  then obtain xs ys where "splitlines_from cur s = xs @ l # ys" by (auto simp: in_set_conv_decomp)
  then have "concat (splitlines_from cur s) = concat xs @ l @ concat ys" by simp
  then show ?thesis by (auto simp: concat_splitlines_from sublist_def)
qed

lemma splitlines_sublist: "l \<in> set (splitlines s) \<Longrightarrow> sublist l s"
  using splitlines_from_sublist [of l "[]" s] by (simp add: splitlines_def)

lemma str_find_None: "str_find s sub = None \<longleftrightarrow> \<not> sublist sub s"
  by (induction s) (auto simp: sublist_Cons_right)

subsection \<open>One line\<close>

lemma process_line_data:
  assumes "\<not> is_header_line line"
  shows "process_line rq line info =
     (case stats_line_match line of
        None \<Rightarrow> (line, info)
      | Some (p, f) \<Rightarrow>
          if f \<in> set IGNORE_FUNC_NAMES then (line, info)
          else (case info of
             None \<Rightarrow>
               (line_template p []
                  (link_template (get_updated_href rq [(FUNC_LOC_KEY, None), (FUNC_NAME_KEY, Some f)]) f),
                info)
           | Some col \<Rightarrow>
               (line_template (take col p)
                  (link_template
                     (get_updated_href rq [(FUNC_LOC_KEY, Some (drop col p)), (FUNC_NAME_KEY, Some f)])
                     (drop col p))
                  (link_template (get_updated_href rq [(FUNC_LOC_KEY, None), (FUNC_NAME_KEY, Some f)]) f),
                info)))"
  using assms by (simp add: process_line_def Let_def split: option.splits)

lemma process_line_no_offset:
  "\<not> sublist FUNCTION_SIG_HEADER line \<Longrightarrow> fst (process_line rq line None) =
     (let line1 = (if is_header_line line then format_header rq line else line)
      in case stats_line_match line1 of
        None \<Rightarrow> line1
      | Some (p, f) \<Rightarrow>
          if f \<in> set IGNORE_FUNC_NAMES then line1
          else line_template p []
                  (link_template (get_updated_href rq [(FUNC_LOC_KEY, None), (FUNC_NAME_KEY, Some f)]) f))"
  using str_find_None [of line FUNCTION_SIG_HEADER]
  by (simp add: process_line_def Let_def split: option.splits)

lemma process_line_info:
  "snd (process_line rq line info) =
     (if is_header_line line \<and> info = None then str_find line FUNCTION_SIG_HEADER else info)"
  by (simp add: process_line_def Let_def split: option.splits)

lemma process_line_info_None:
  "\<not> sublist FUNCTION_SIG_HEADER line \<Longrightarrow> snd (process_line rq line None) = None"
  by (simp add: process_line_info str_find_None)

lemma process_lines_no_offset:
  "\<forall>l \<in> set lines. \<not> sublist FUNCTION_SIG_HEADER l \<Longrightarrow>
   process_lines rq lines None = map (\<lambda>l. fst (process_line rq l None)) lines"
  by (induction lines) (simp_all add: process_line_info_None)

lemma visible_text_line_template_name_only:
  "visible_text (line_template p [] (link_template url f)) = p @ ''('' @ f @ '')'' @ [LF]"
proof -
  have "strip_tags False (line_template p [] (link_template url f))
      = html_escape p @ strip_tags False (''('' @ link_template url f @ '')'' @ [LF])"
    unfolding line_template_def append_Nil by (rule strip_tags_text) (rule html_escape_no_lt)
  also have "strip_tags False (''('' @ link_template url f @ '')'' @ [LF])
      = ''('' @ strip_tags False (link_template url f @ '')'' @ [LF])"
    by simp
  also have "strip_tags False (link_template url f @ '')'' @ [LF])
      = html_escape f @ strip_tags False ('')'' @ [LF])"
    by (rule strip_tags_link_template)
  also have "strip_tags False ('')'' @ [LF]) = '')'' @ [LF]"
    by (simp add: LF_def)
  finally have "visible_text (line_template p [] (link_template url f))
      = html_unescape (html_escape p @ ''('' @ html_escape f @ '')'' @ [LF])"
    by (simp add: visible_text_def)
  also have "\<dots> = p @ html_unescape (''('' @ html_escape f @ '')'' @ [LF])"
    by (rule html_unescape_escape)
  also have "html_unescape (''('' @ html_escape f @ '')'' @ [LF])
      = ''('' @ html_unescape (html_escape f @ '')'' @ [LF])"
    by (simp add: html_unescape_plain)
  also have "html_unescape (html_escape f @ '')'' @ [LF]) = f @ html_unescape ('')'' @ [LF])"
    by (rule html_unescape_escape)
  also have "html_unescape ('')'' @ [LF]) = '')'' @ [LF]"
    by (simp add: html_unescape_plain LF_def)
  finally show ?thesis by simp
qed

lemma visible_text_line_template_both:
  "visible_text (line_template a (link_template url1 b) (link_template url2 f))
     = a @ b @ ''('' @ f @ '')'' @ [LF]"
proof -
  have "strip_tags False (line_template a (link_template url1 b) (link_template url2 f))
      = html_escape a @ strip_tags False (link_template url1 b @ ''('' @ link_template url2 f @ '')'' @ [LF])"
    unfolding line_template_def by (rule strip_tags_text) (rule html_escape_no_lt)
  also have "strip_tags False (link_template url1 b @ ''('' @ link_template url2 f @ '')'' @ [LF])
      = html_escape b @ strip_tags False (''('' @ link_template url2 f @ '')'' @ [LF])"
    by (rule strip_tags_link_template)
  also have "strip_tags False (''('' @ link_template url2 f @ '')'' @ [LF])
      = ''('' @ strip_tags False (link_template url2 f @ '')'' @ [LF])"
    by simp
  also have "strip_tags False (link_template url2 f @ '')'' @ [LF])
      = html_escape f @ strip_tags False ('')'' @ [LF])"
    by (rule strip_tags_link_template)
  also have "strip_tags False ('')'' @ [LF]) = '')'' @ [LF]"
    by (simp add: LF_def)
  finally have "visible_text (line_template a (link_template url1 b) (link_template url2 f))
      = html_unescape (html_escape a @ html_escape b @ ''('' @ html_escape f @ '')'' @ [LF])"
    by (simp add: visible_text_def)
  also have "\<dots> = a @ html_unescape (html_escape b @ ''('' @ html_escape f @ '')'' @ [LF])"
    by (rule html_unescape_escape)
  also have "html_unescape (html_escape b @ ''('' @ html_escape f @ '')'' @ [LF])
      = b @ html_unescape (''('' @ html_escape f @ '')'' @ [LF])"
    by (rule html_unescape_escape)
  also have "html_unescape (''('' @ html_escape f @ '')'' @ [LF])
      = ''('' @ html_unescape (html_escape f @ '')'' @ [LF])"
    by (simp add: html_unescape_plain)
  also have "html_unescape (html_escape f @ '')'' @ [LF]) = f @ html_unescape ('')'' @ [LF])"
    by (rule html_unescape_escape)
  also have "html_unescape ('')'' @ [LF]) = '')'' @ [LF]"
    by (simp add: html_unescape_plain LF_def)
  finally show ?thesis by simp
qed

lemma count_links_line_template_name_only:
  "count_links (line_template p [] (link_template url f)) = 1"
proof -
  have "count_links (line_template p [] (link_template url f))
      = count_links (''('' @ link_template url f @ '')'' @ [LF])"
    unfolding line_template_def append_Nil by (rule count_links_no_lt) (rule html_escape_no_lt)
  also have "\<dots> = count_links (link_template url f @ '')'' @ [LF])"
    by simp
  also have "\<dots> = Suc (count_links ('')'' @ [LF]))"
    by (rule count_links_link_template)
  also have "\<dots> = 1" by (simp add: LF_def)
  finally show ?thesis .
qed

lemma count_links_line_template_both:
  "count_links (line_template a (link_template url1 b) (link_template url2 f)) = 2"
proof -
  have "count_links (line_template a (link_template url1 b) (link_template url2 f))
      = count_links (link_template url1 b @ ''('' @ link_template url2 f @ '')'' @ [LF])"
    unfolding line_template_def by (rule count_links_no_lt) (rule html_escape_no_lt)
  also have "\<dots> = Suc (count_links (''('' @ link_template url2 f @ '')'' @ [LF]))"
    by (rule count_links_link_template)
  also have "count_links (''('' @ link_template url2 f @ '')'' @ [LF])
      = count_links (link_template url2 f @ '')'' @ [LF])"
    by simp
  also have "\<dots> = Suc (count_links ('')'' @ [LF]))"
    by (rule count_links_link_template)
  also have "count_links ('')'' @ [LF]) = 0" by (simp add: LF_def)
  finally show ?thesis by simp
qed

lemma process_line_ignored:
  assumes "stats_line_match (if is_header_line line then format_header rq line else line)
             = Some (prefix_text, func_name)"
    and "func_name \<in> set IGNORE_FUNC_NAMES"
  shows "fst (process_line rq line info) = (if is_header_line line then format_header rq line else line)"
  using assms by (simp add: process_line_def Let_def)

lemma process_line_data_links:
  assumes "line \<in> set (splitlines raw)"
    and "\<not> is_header_line line"
    and "stats_line_match line = Some (prefix_text, func_name)"
    and "func_name \<notin> set IGNORE_FUNC_NAMES"
  shows "visible_text (fst (process_line rq line info)) = (if last line = LF then line else line @ [LF])
     \<and> count_links (fst (process_line rq line info)) = (case info of None \<Rightarrow> 1 | Some col \<Rightarrow> 2)
     \<and> fst (process_line rq line info) =
        (case info of
           None \<Rightarrow>
             html_escape prefix_text @ ''(''
             @ link_template
                 (get_updated_href rq [(FUNC_LOC_KEY, None), (FUNC_NAME_KEY, Some func_name)])
                 func_name
             @ '')'' @ [LF]
         | Some col \<Rightarrow>
             html_escape (take col prefix_text)
             @ link_template
                 (get_updated_href rq
                    [(FUNC_LOC_KEY, Some (drop col prefix_text)), (FUNC_NAME_KEY, Some func_name)])
                 (drop col prefix_text)
             @ ''(''
             @ link_template
                 (get_updated_href rq [(FUNC_LOC_KEY, None), (FUNC_NAME_KEY, Some func_name)])
                 func_name
             @ '')'' @ [LF])"
proof -
  have "LF \<notin> set (butlast line)" using assms(1) by (rule splitlines_no_inner_LF)
  with assms(3) have "line = prefix_text @ ''('' @ func_name @ '')'' @ (if last line = LF then [LF] else [])"
    by (rule stats_line_match_line)
  then have line: "(if last line = LF then line else line @ [LF]) = prefix_text @ ''('' @ func_name @ '')'' @ [LF]"
    by (cases "last line = LF") simp_all
  show ?thesis
  proof (cases info)
    case None
    have out: "fst (process_line rq line info)
      = line_template prefix_text []
          (link_template
             (get_updated_href rq [(FUNC_LOC_KEY, None), (FUNC_NAME_KEY, Some func_name)]) func_name)"
      using assms(2,3,4) None by (simp add: process_line_data)
    have "visible_text (fst (process_line rq line info)) = (if last line = LF then line else line @ [LF])"
      unfolding out visible_text_line_template_name_only line ..
    moreover have "count_links (fst (process_line rq line info)) = 1"
      unfolding out by (rule count_links_line_template_name_only)
    ultimately show ?thesis using None out by (simp add: line_template_def)
  next
    case (Some col)
    have out: "fst (process_line rq line info)
      = line_template (take col prefix_text)
          (link_template
             (get_updated_href rq
                [(FUNC_LOC_KEY, Some (drop col prefix_text)), (FUNC_NAME_KEY, Some func_name)])
             (drop col prefix_text))
          (link_template
             (get_updated_href rq [(FUNC_LOC_KEY, None), (FUNC_NAME_KEY, Some func_name)]) func_name)"
      using assms(2,3,4) Some by (simp add: process_line_data)
    have "visible_text (fst (process_line rq line info))
        = take col prefix_text @ drop col prefix_text @ ''('' @ func_name @ '')'' @ [LF]"
      unfolding out by (rule visible_text_line_template_both)
    then have "visible_text (fst (process_line rq line info)) = (if last line = LF then line else line @ [LF])"
      unfolding line by simp
    moreover have "count_links (fst (process_line rq line info)) = 2"
      unfolding out by (rule count_links_line_template_both)
    ultimately show ?thesis using Some out by (simp add: line_template_def)
  qed
qed

subsection \<open>The column offset in a read\<close>

lemma process_lines_nth:
  "i < length lines \<Longrightarrow>
   process_lines rq lines info ! i = fst (process_line rq (lines ! i) (info_at rq (take i lines) info))"
proof (induction lines arbitrary: i info)
  case Nil
  then show ?case by simp
next
  case (Cons l ls)
  then show ?case by (cases i) simp_all
qed

lemma info_at_Some: "info_at rq lines (Some col) = Some col"
  by (induction lines) (simp_all add: process_line_info)

lemma info_at_None: "info_at rq lines None = col_offset lines"
proof (induction lines)
  case Nil
  then show ?case by (simp add: col_offset_def)
next
  case (Cons l ls)
  show ?case
  proof (cases "marker_header l")
    case True
    then have "str_find l FUNCTION_SIG_HEADER \<noteq> None"
      by (simp add: marker_header_def str_find_None)
    then obtain col where c: "str_find l FUNCTION_SIG_HEADER = Some col" by blast
    with True show ?thesis
      by (simp add: process_line_info marker_header_def col_offset_def info_at_Some)
  next
    case False
    then have "snd (process_line rq l None) = None"
      using str_find_None [of l FUNCTION_SIG_HEADER]
      by (auto simp: process_line_info marker_header_def)
    with False Cons.IH show ?thesis
      by (simp add: col_offset_def)
  qed
qed

lemma col_offset_None: "col_offset lines = None \<longleftrightarrow> find marker_header lines = None"
proof (cases "find marker_header lines")
  case None
  then show ?thesis by (simp add: col_offset_def)
next
  case (Some h)
  then have "marker_header h" by (auto simp: find_Some_iff)
  then have "str_find h FUNCTION_SIG_HEADER \<noteq> None"
    by (simp add: marker_header_def str_find_None)
  with Some show ?thesis by (simp add: col_offset_def)
qed

subsection \<open>The stream of a session\<close>

lemma sio_reset: "sio_truncate (sio_seek 0 io) = sio_empty"
  by (simp add: sio_truncate_def sio_seek_def sio_empty_def)

lemma read_stream_eq: "read_stream s = (sio_buf (stream s), s\<lparr>stream := sio_empty\<rparr>)"
  by (simp add: read_stream_def sio_getvalue_def sio_reset Let_def)

lemma read_eq: "read rq s = (format_report rq (sio_buf (stream s)), s\<lparr>stream := sio_empty\<rparr>)"
  by (simp add: read_def read_stream_eq)

lemma sio_write_at_end:
  "sio_pos io = length (sio_buf io) \<Longrightarrow>
   sio_write t io = \<lparr>sio_buf = sio_buf io @ t, sio_pos = length (sio_buf io @ t)\<rparr>"
  by (simp add: sio_write_def Let_def)

lemma do_render_at_end:
  assumes "sio_pos (stream s) = length (sio_buf (stream s))"
  shows "do_render lib r s =
     s\<lparr>stream := \<lparr>sio_buf = sio_buf (stream s) @ render_text lib (stats s) r,
                   sio_pos = length (sio_buf (stream s) @ render_text lib (stats s) r)\<rparr>\<rparr>"
  using assms by (cases r) (simp_all add: show_def show_callers_def show_callees_def sio_write_at_end)

lemma fold_do_render:
  "sio_pos (stream s) = length (sio_buf (stream s)) \<Longrightarrow>
   fold (do_render lib) rs s =
     s\<lparr>stream := \<lparr>sio_buf = sio_buf (stream s) @ concat (map (render_text lib (stats s)) rs),
                   sio_pos = length (sio_buf (stream s) @ concat (map (render_text lib (stats s)) rs))\<rparr>\<rparr>"
proof (induction rs arbitrary: s)
  case Nil
  then show ?case by simp
next
  case (Cons r rs)
  let ?s1 = "do_render lib r s"
  have s1: "?s1 = s\<lparr>stream := \<lparr>sio_buf = sio_buf (stream s) @ render_text lib (stats s) r,
                   sio_pos = length (sio_buf (stream s) @ render_text lib (stats s) r)\<rparr>\<rparr>"
    using Cons.prems by (rule do_render_at_end)
  then have "sio_pos (stream ?s1) = length (sio_buf (stream ?s1))" by simp
  then have "fold (do_render lib) rs ?s1 =
     ?s1\<lparr>stream := \<lparr>sio_buf = sio_buf (stream ?s1) @ concat (map (render_text lib (stats ?s1)) rs),
                   sio_pos = length (sio_buf (stream ?s1) @ concat (map (render_text lib (stats ?s1)) rs))\<rparr>\<rparr>"
    by (rule Cons.IH)
  then show ?case by (simp add: s1)
qed

lemma session_run_loaded:
  "stream s = sio_empty \<Longrightarrow>
   session_run lib rq evs (w, s) = map (\<lambda>r. format_report rq (render_text lib (stats s) r)) (renders_of evs)"
proof (induction evs arbitrary: w s)
  case Nil
  then show ?case by simp
next
  case (Cons ev evs)
  show ?case
  proof (cases ev)
    case (Advance table)
    then show ?thesis using Cons.IH [OF Cons.prems] by simp
  next
    case (Render r)
    have e: "sio_pos (stream s) = length (sio_buf (stream s))"
      using Cons.prems by (simp add: sio_empty_def)
    have d: "do_render lib r s = s\<lparr>stream := \<lparr>sio_buf = render_text lib (stats s) r,
                   sio_pos = length (render_text lib (stats s) r)\<rparr>\<rparr>"
      using do_render_at_end [OF e, of lib r] Cons.prems by (simp add: sio_empty_def)
    have rd: "read rq (do_render lib r s)
        = (format_report rq (render_text lib (stats s) r), s\<lparr>stream := sio_empty\<rparr>)"
      by (simp add: read_eq d)
    have "session_run lib rq evs (w, s\<lparr>stream := sio_empty\<rparr>)
        = map (\<lambda>r. format_report rq (render_text lib (stats (s\<lparr>stream := sio_empty\<rparr>)) r)) (renders_of evs)"
      by (rule Cons.IH) simp
    then show ?thesis using Render rd by simp
  qed
qed

lemma sort_arg_cumulative:
  "map_of get_sort_arg_defs ''cumulative'' = Some ([(3, - 1)], ''cumulative time'')"
  by code_simp

subsection \<open>Escaped patterns\<close>















subsection \<open>Signatures\<close>







subsection \<open>Claims about link targets\<close>

text \<open>
  Claim C2, as the code has it.  The link target is empty when no parameter is carried,
  and otherwise \<^verbatim>\<open>?\<close> followed by the carried parameters as \<^verbatim>\<open>key=value\<close> pairs joined
  by \<^verbatim>\<open>&\<close>.  The carried parameters are the current parameters overlaid with the changed
  keys, each key once: a key the overlay sets to \<^verbatim>\<open>None\<close> is dropped, a key it sets to a
  string takes that string, any other key keeps the request's (last) value.  Only
  \<^verbatim>\<open>None\<close> is dropped: a parameter whose value is the empty string stays, as \<^verbatim>\<open>key=\<close>.
\<close>

theorem get_updated_href_query_string:
  "get_updated_href rq kv =
     (if link_query rq kv = [] then []
      else ''?'' @ str_join ''&'' (map (\<lambda>(key, val). key @ ''='' @ val) (link_query rq kv)))
   \<and> distinct (map fst (link_query rq kv))
   \<and> map_of (link_query rq kv) k =
       (case map_of (rev kv) k of
          Some None \<Rightarrow> None
        | Some (Some val) \<Rightarrow> Some val
        | None \<Rightarrow> map_of (rev rq) k)"
proof -
  have d: "distinct (map fst (overlay (request_dict rq) kv))"
    by (simp add: overlay_distinct request_dict_distinct)
  have "map_of (link_query rq kv) k =
       (case map_of (rev kv) k of
          Some None \<Rightarrow> None
        | Some (Some val) \<Rightarrow> Some val
        | None \<Rightarrow> map_of (rev rq) k)"
    unfolding link_query_def map_of_carried [OF d]
    by (simp add: map_of_overlay map_of_request_dict map_add_def split: option.splits)
  moreover have "distinct (map fst (link_query rq kv))"
    unfolding link_query_def using d by (rule carried_keys_distinct)
  ultimately show ?thesis using href_eq [of rq kv] by simp
qed

text \<open>The theorem at a request sorted by time, on the link that selects function \<^verbatim>\<open>f\<close>.\<close>

theorem get_updated_href_query_string_witness:
  "get_updated_href [(''sort'', ''time''), (''func_loc'', ''a.py:1'')]
     [(FUNC_LOC_KEY, None), (FUNC_NAME_KEY, Some ''f'')] = ''?sort=time&func_name=f''"
  using get_updated_href_query_string
    [of "[(''sort'', ''time''), (''func_loc'', ''a.py:1'')]"
        "[(FUNC_LOC_KEY, None), (FUNC_NAME_KEY, Some ''f'')]" "''sort''"]
  by (simp add: link_query_def carried_def overlay_def request_dict_def FUNC_LOC_KEY_def
      FUNC_NAME_KEY_def)

text \<open>
  Against C2 as stated: a request \<^verbatim>\<open>?sort=\<close> has an empty sort value, and the link
  built from it serializes \<^verbatim>\<open>sort=\<close>, where the rule of the specification drops it.
\<close>

theorem get_updated_href_empty_value_counterexample:
  "get_updated_href [(''sort'', '''')] [(FUNC_LOC_KEY, None), (FUNC_NAME_KEY, Some ''f'')]
     = ''?sort=&func_name=f''
   \<and> spec_query_string [(''sort'', '''')] [(FUNC_LOC_KEY, None), (FUNC_NAME_KEY, Some ''f'')]
     = ''func_name=f''
   \<and> get_updated_href [(''sort'', '''')] [(FUNC_LOC_KEY, None), (FUNC_NAME_KEY, Some ''f'')]
     \<noteq> ''?'' @ spec_query_string [(''sort'', '''')] [(FUNC_LOC_KEY, None), (FUNC_NAME_KEY, Some ''f'')]"
  by (simp add: get_updated_href_def spec_query_string_def link_query_def carried_def overlay_def
      request_dict_def href_append_def FUNC_LOC_KEY_def FUNC_NAME_KEY_def)

text \<open>
  Claim C8.  Following a link makes the parameters it carries the next request's query.
  Building the same link again from there, with the same overlay (a dictionary: each
  key once), carries the same parameters and gives the same target.
\<close>

theorem get_updated_href_idempotent:
  assumes "distinct (map fst kv)"
  shows "link_query (link_query rq kv) kv = link_query rq kv
       \<and> get_updated_href (link_query rq kv) kv = get_updated_href rq kv"
proof -
  have l: "link_query (link_query rq kv) kv = link_query rq kv"
    using assms by (rule link_query_idem)
  have "get_updated_href (link_query rq kv) kv = get_updated_href rq kv"
    unfolding href_eq [of "link_query rq kv" kv] href_eq [of rq kv] l ..
  with l show ?thesis ..
qed

text \<open>The theorem on the link that selects function \<^verbatim>\<open>f\<close> and clears the location.\<close>

theorem get_updated_href_idempotent_witness:
  "distinct (map fst [(FUNC_LOC_KEY, None), (FUNC_NAME_KEY, Some ''f'')])
   \<and> get_updated_href
        (link_query [(''sort'', ''time''), (''func_loc'', ''a.py:1'')]
           [(FUNC_LOC_KEY, None), (FUNC_NAME_KEY, Some ''f'')])
        [(FUNC_LOC_KEY, None), (FUNC_NAME_KEY, Some ''f'')]
     = ''?sort=time&func_name=f''"
proof -
  have h: "distinct (map fst [(FUNC_LOC_KEY, None :: string option), (FUNC_NAME_KEY, Some ''f'')])"
    by (simp add: FUNC_LOC_KEY_def FUNC_NAME_KEY_def)
  have "get_updated_href [(''sort'', ''time''), (''func_loc'', ''a.py:1'')]
     [(FUNC_LOC_KEY, None), (FUNC_NAME_KEY, Some ''f'')] = ''?sort=time&func_name=f''"
    by (simp add: get_updated_href_def overlay_def request_dict_def href_append_def
      FUNC_LOC_KEY_def FUNC_NAME_KEY_def)
  with h get_updated_href_idempotent [OF h, of "[(''sort'', ''time''), (''func_loc'', ''a.py:1'')]"]
  show ?thesis by simp
qed

subsection \<open>Claims about the formatted lines\<close>




text \<open>
  Claim C5 at an input where the code departs from it.  The output of \<^verbatim>\<open>print_callers\<close>
  has no marker \<^verbatim>\<open>filename:lineno(function)\<close>.  Its row for the caller \<^verbatim>\<open>get_ncalls\<close>
  matches the stat-line pattern with the name \<^verbatim>\<open>get_ncalls\<close>, which is not ignored.  The
  column word \<^verbatim>\<open>ncalls\<close> occurs in that name, so the header step, written for header
  lines, fires on the row first and puts a sort link into the name; the link the row
  then gets has that markup in its text and in its target, and is not the link built
  from the bare name.
\<close>

theorem format_report_column_word_in_name:
  "\<not> sublist FUNCTION_SIG_HEADER callers_report
   \<and> splitlines callers_report ! 4
       = ''m.py:1(helper)  <-       1    0.000    0.000  m.py:3(get_ncalls)\<newline>''
   \<and> stats_line_match (splitlines callers_report ! 4)
       = Some (''m.py:1(helper)  <-       1    0.000    0.000  m.py:3'', ''get_ncalls'')
   \<and> ''get_ncalls'' \<notin> set IGNORE_FUNC_NAMES
   \<and> process_lines [] (splitlines callers_report) None ! 4
       = html_escape ''m.py:1(helper)  <-       1    0.000    0.000  m.py:3'' @ ''(''
         @ link_template (''?func_name=get_'' @ link_template ''?sort=calls'' ''ncalls'')
             (''get_'' @ link_template ''?sort=calls'' ''ncalls'')
         @ '')\<newline>''
   \<and> process_lines [] (splitlines callers_report) None ! 4
       \<noteq> html_escape ''m.py:1(helper)  <-       1    0.000    0.000  m.py:3'' @ ''(''
         @ link_template ''?func_name=get_ncalls'' ''get_ncalls'' @ '')\<newline>''"
  by code_simp

text \<open>
  Claim C1, as the code has it.  Take a line of a raw text that is a data line (no
  column word occurs in it) and has a name between its last parentheses that is not
  ignored.  The line the read returns for it shows the original line exactly (with the
  newline the template ends with, when the line is the last of the text and has none).
  It holds two links, one over the text from the column offset to the opening
  parenthesis and one over the name, when a header line with the marker
  \<^verbatim>\<open>filename:lineno(function)\<close> came before it in the same text, the offset being the
  place of the marker in the first such header; it holds the link over the name alone
  when no such header came before.
\<close>

theorem format_report_links_and_visible_text:
  assumes "i < length (splitlines raw)"
    and "\<not> is_header_line (splitlines raw ! i)"
    and "stats_line_match (splitlines raw ! i) = Some (prefix_text, func_name)"
    and "func_name \<notin> set IGNORE_FUNC_NAMES"
  shows "format_report rq raw = concat (process_lines rq (splitlines raw) None)
     \<and> visible_text (process_lines rq (splitlines raw) None ! i)
         = (if last (splitlines raw ! i) = LF then splitlines raw ! i else splitlines raw ! i @ [LF])
     \<and> count_links (process_lines rq (splitlines raw) None ! i)
         = (case find marker_header (take i (splitlines raw)) of None \<Rightarrow> 1 | Some header \<Rightarrow> 2)
     \<and> process_lines rq (splitlines raw) None ! i =
        (case col_offset (take i (splitlines raw)) of
           None \<Rightarrow>
             html_escape prefix_text @ ''(''
             @ link_template
                 (get_updated_href rq [(FUNC_LOC_KEY, None), (FUNC_NAME_KEY, Some func_name)])
                 func_name
             @ '')'' @ [LF]
         | Some col \<Rightarrow>
             html_escape (take col prefix_text)
             @ link_template
                 (get_updated_href rq
                    [(FUNC_LOC_KEY, Some (drop col prefix_text)), (FUNC_NAME_KEY, Some func_name)])
                 (drop col prefix_text)
             @ ''(''
             @ link_template
                 (get_updated_href rq [(FUNC_LOC_KEY, None), (FUNC_NAME_KEY, Some func_name)])
                 func_name
             @ '')'' @ [LF])"
proof -
  let ?lines = "splitlines raw"
  let ?line = "?lines ! i"
  let ?info = "col_offset (take i ?lines)"
  have mem: "?line \<in> set ?lines" using assms(1) by simp
  have nth: "process_lines rq ?lines None ! i = fst (process_line rq ?line ?info)"
    using process_lines_nth [OF assms(1), of rq None] by (simp add: info_at_None)
  note r = process_line_data_links [OF mem assms(2) assms(3) assms(4), of rq ?info]
  have cnt: "(case ?info of None \<Rightarrow> (1::nat) | Some col \<Rightarrow> 2)
      = (case find marker_header (take i ?lines) of None \<Rightarrow> 1 | Some header \<Rightarrow> 2)"
    using col_offset_None [of "take i ?lines"] by (auto split: option.splits)
  have a: "format_report rq raw = concat (process_lines rq ?lines None)"
    by (simp add: format_report_def)
  from r [THEN conjunct1] have b: "visible_text (process_lines rq ?lines None ! i)
         = (if last ?line = LF then ?line else ?line @ [LF])"
    unfolding nth .
  from r [THEN conjunct2, THEN conjunct1] cnt
  have c: "count_links (process_lines rq ?lines None ! i)
         = (case find marker_header (take i ?lines) of None \<Rightarrow> 1 | Some header \<Rightarrow> 2)"
    unfolding nth by simp
  note d = r [THEN conjunct2, THEN conjunct2, folded nth]
  from a b c d show ?thesis by blast
qed

text \<open>The theorem on the row of \<^verbatim>\<open><module>\<close> under the title row, whose marker is at offset 46.\<close>

theorem format_report_links_and_visible_text_witness:
  "(1::nat) < length (splitlines stats_report)
   \<and> \<not> is_header_line (splitlines stats_report ! 1)
   \<and> stats_line_match (splitlines stats_report ! 1)
       = Some (''        1    0.000    0.000    0.000    0.000 <string>:1'', ''<module>'')
   \<and> ''<module>'' \<notin> set IGNORE_FUNC_NAMES
   \<and> find marker_header (take 1 (splitlines stats_report)) = Some title_row
   \<and> visible_text (process_lines [] (splitlines stats_report) None ! 1)
       = ''        1    0.000    0.000    0.000    0.000 <string>:1(<module>)\<newline>''
   \<and> count_links (process_lines [] (splitlines stats_report) None ! 1) = 2
   \<and> process_lines [] (splitlines stats_report) None ! 1
       = ''        1    0.000    0.000    0.000    0.000 ''
         @ link_template ''?func_loc=<string>:1&func_name=<module>'' ''<string>:1''
         @ ''('' @ link_template ''?func_name=<module>'' ''<module>'' @ '')\<newline>''"
proof -
  have h1: "(1::nat) < length (splitlines stats_report)"
    by code_simp
  have h2: "\<not> is_header_line (splitlines stats_report ! 1)"
    by code_simp
  have h3: "stats_line_match (splitlines stats_report ! 1)
       = Some (''        1    0.000    0.000    0.000    0.000 <string>:1'', ''<module>'')"
    by code_simp
  have h4: "''<module>'' \<notin> set IGNORE_FUNC_NAMES"
    by (simp add: IGNORE_FUNC_NAMES_def)
  have f: "find marker_header (take 1 (splitlines stats_report)) = Some title_row"
    by code_simp
  have o: "col_offset (take 1 (splitlines stats_report)) = Some 46"
    by code_simp
  have l: "splitlines stats_report ! 1
      = ''        1    0.000    0.000    0.000    0.000 <string>:1(<module>)\<newline>''"
    by code_simp
  have u1: "get_updated_href [] [(FUNC_LOC_KEY, Some ''<string>:1''), (FUNC_NAME_KEY, Some ''<module>'')]
      = ''?func_loc=<string>:1&func_name=<module>''"
    by code_simp
  have u2: "get_updated_href [] [(FUNC_LOC_KEY, None), (FUNC_NAME_KEY, Some ''<module>'')]
      = ''?func_name=<module>''"
    by code_simp
  have e: "html_escape ''        1    0.000    0.000    0.000    0.000 ''
      = ''        1    0.000    0.000    0.000    0.000 ''"
    by code_simp
  note r = format_report_links_and_visible_text [OF h1 h2 h3 h4, of "[]"]
  from r [THEN conjunct2, THEN conjunct1, unfolded l]
  have c1: "visible_text (process_lines [] (splitlines stats_report) None ! 1)
       = ''        1    0.000    0.000    0.000    0.000 <string>:1(<module>)\<newline>''"
    by (simp add: LF_def)
  from r [THEN conjunct2, THEN conjunct2, THEN conjunct1, unfolded f]
  have c2: "count_links (process_lines [] (splitlines stats_report) None ! 1) = 2"
    by simp
  from r [THEN conjunct2, THEN conjunct2, THEN conjunct2, unfolded o]
  have c3: "process_lines [] (splitlines stats_report) None ! 1
       = ''        1    0.000    0.000    0.000    0.000 ''
         @ link_template ''?func_loc=<string>:1&func_name=<module>'' ''<string>:1''
         @ ''('' @ link_template ''?func_name=<module>'' ''<module>'' @ '')\<newline>''"
    by (simp add: u1 u2 e LF_def)
  from h1 h2 h3 h4 f c1 c2 c3 show ?thesis by blast
qed

text \<open>
  Against C1 as stated: the header of a callers report has the column words but not the
  marker, so the offset stays unknown and the row below it gets one link, not two.
\<close>

theorem format_report_callers_counterexample:
  "\<not> is_header_line ''m.py:1(helper)  <-       1    0.000    0.000  m.py:3(main)\<newline>''
   \<and> stats_line_match ''m.py:1(helper)  <-       1    0.000    0.000  m.py:3(main)\<newline>''
       = Some (''m.py:1(helper)  <-       1    0.000    0.000  m.py:3'', ''main'')
   \<and> process_lines []
        (splitlines (''                    ncalls  tottime  cumtime\<newline>''
           @ ''m.py:1(helper)  <-       1    0.000    0.000  m.py:3(main)\<newline>'')) None ! 1
     = ''m.py:1(helper)  &lt;-       1    0.000    0.000  m.py:3(''
       @ link_template ''?func_name=main'' ''main'' @ '')\<newline>''
   \<and> count_links (process_lines []
        (splitlines (''                    ncalls  tottime  cumtime\<newline>''
           @ ''m.py:1(helper)  <-       1    0.000    0.000  m.py:3(main)\<newline>'')) None ! 1) = 1"
  by code_simp

subsection \<open>Claims about the session and the controller\<close>

text \<open>
  Claim C10.  Reading consumes the stream: after \<^verbatim>\<open>read_stream\<close> and after \<^verbatim>\<open>read\<close> the
  stream is empty, at position 0.  So whatever was rendered before a read, the next
  \<^verbatim>\<open>read_stream\<close> returns exactly the texts that \<^verbatim>\<open>show\<close>, \<^verbatim>\<open>show_callers\<close> and
  \<^verbatim>\<open>show_callees\<close> printed since that read, in order, and the next \<^verbatim>\<open>read\<close> returns
  that text formatted; nothing of an earlier render is in it.
\<close>

theorem read_consumes_stream:
  "stream (snd (read_stream s)) = sio_empty
   \<and> stream (snd (read rq s)) = sio_empty
   \<and> fst (read_stream (fold (do_render lib) rs (snd (read rq s))))
       = concat (map (render_text lib (stats s)) rs)
   \<and> fst (read rq1 (fold (do_render lib) rs (snd (read rq s))))
       = format_report rq1 (concat (map (render_text lib (stats s)) rs))"
proof -
  let ?s0 = "s\<lparr>stream := sio_empty\<rparr>"
  have e: "sio_pos (stream ?s0) = length (sio_buf (stream ?s0))"
    by (simp add: sio_empty_def)
  have f: "sio_buf (stream (fold (do_render lib) rs ?s0)) = concat (map (render_text lib (stats s)) rs)"
    unfolding fold_do_render [OF e] by (simp add: sio_empty_def)
  show ?thesis
    by (simp add: read_eq read_stream_eq f)
qed

text \<open>The theorem on a session that was rendered and read once before.\<close>

theorem read_consumes_stream_witness:
  "fst (read_stream (fold (do_render listing_printer) [ShowCallers [], Show []]
          (snd (read [] (show listing_printer []
             \<lparr>profile = ProfileObj, stream = sio_empty,
               stats = \<lparr>pst_stats = table_one, pst_sort = None\<rparr>\<rparr>)))))
     = ''m.py:10(foo)\<newline>m.py:10(foo)\<newline>''"
proof -
  have "concat (map (render_text listing_printer \<lparr>pst_stats = table_one, pst_sort = None\<rparr>)
          [ShowCallers [], Show []]) = ''m.py:10(foo)\<newline>m.py:10(foo)\<newline>''"
    by code_simp
  moreover have "stats (show listing_printer []
             \<lparr>profile = ProfileObj, stream = sio_empty,
               stats = \<lparr>pst_stats = table_one, pst_sort = None\<rparr>\<rparr>)
      = \<lparr>pst_stats = table_one, pst_sort = None\<rparr>"
    by (simp add: show_def)
  ultimately show ?thesis
    using read_consumes_stream [of "show listing_printer []
             \<lparr>profile = ProfileObj, stream = sio_empty,
               stats = \<lparr>pst_stats = table_one, pst_sort = None\<rparr>\<rparr>" "[]" listing_printer
             "[ShowCallers [], Show []]" "[]"]
    by simp
qed

text \<open>
  Claim C4, as the code has it.  The statistics object of a session holds the table
  that its source yielded when the session was constructed.  Every render of the
  session prints that table: the texts read in the session are those of the loaded
  table, whatever tables the running program gave the source in between.  (A request
  sees the running program's progress because \<^verbatim>\<open>route_handler\<close> constructs a new
  \<^verbatim>\<open>Stats\<close> for each request.)
\<close>

theorem session_renders_loaded_table:
  assumes "Stats_init w src = Inr s"
  shows "stats s = \<lparr>pst_stats = w src, pst_sort = None\<rparr>
     \<and> session_run lib rq evs (w, s)
         = map (\<lambda>r. format_report rq (render_text lib \<lparr>pst_stats = w src, pst_sort = None\<rparr> r))
             (renders_of evs)"
proof -
  from assms have s: "s = \<lparr>profile = src, stream = sio_empty, stats = \<lparr>pst_stats = w src, pst_sort = None\<rparr>\<rparr>"
    by (auto simp: Stats_init_def pstats_Stats_def split: if_splits)
  then have "stream s = sio_empty" by simp
  then have "session_run lib rq evs (w, s)
      = map (\<lambda>r. format_report rq (render_text lib (stats s) r)) (renders_of evs)"
    by (rule session_run_loaded)
  then show ?thesis using s by simp
qed

text \<open>
  The theorem on a session made when \<^verbatim>\<open>foo\<close> alone had been called: both renders list
  \<^verbatim>\<open>foo\<close> alone, though \<^verbatim>\<open>bar\<close> was called between them.
\<close>

theorem session_renders_loaded_table_witness:
  "Stats_init world_one ProfileObj
     = Inr \<lparr>profile = ProfileObj, stream = sio_empty, stats = \<lparr>pst_stats = table_one, pst_sort = None\<rparr>\<rparr>
   \<and> session_run listing_printer [] [Render (Show []), Advance table_two, Render (Show [])]
        (world_one, \<lparr>profile = ProfileObj, stream = sio_empty,
                      stats = \<lparr>pst_stats = table_one, pst_sort = None\<rparr>\<rparr>)
      = [format_report [] ''m.py:10(foo)\<newline>'', format_report [] ''m.py:10(foo)\<newline>'']"
proof -
  have h: "Stats_init world_one ProfileObj
     = Inr \<lparr>profile = ProfileObj, stream = sio_empty, stats = \<lparr>pst_stats = table_one, pst_sort = None\<rparr>\<rparr>"
    by (simp add: Stats_init_def pstats_Stats_def world_one_def table_one_def)
  have t: "print_stats listing_printer \<lparr>pst_stats = world_one ProfileObj, pst_sort = None\<rparr> []
      = ''m.py:10(foo)\<newline>''"
    by code_simp
  from session_renders_loaded_table [OF h, of listing_printer "[]"
      "[Render (Show []), Advance table_two, Render (Show [])]"] h t
  show ?thesis by simp
qed

text \<open>
  Against C4 as stated: were each render to re-read the live source, the second render
  of that session would list \<^verbatim>\<open>bar\<close> too.
\<close>

theorem session_no_reload_counterexample:
  "session_run listing_printer [] [Render (Show []), Advance table_two, Render (Show [])]
     (world_one, \<lparr>profile = ProfileObj, stream = sio_empty,
                   stats = \<lparr>pst_stats = table_one, pst_sort = None\<rparr>\<rparr>)
   \<noteq> spec_session_run listing_printer [] [Render (Show []), Advance table_two, Render (Show [])]
     (world_one, \<lparr>profile = ProfileObj, stream = sio_empty,
                   stats = \<lparr>pst_stats = table_one, pst_sort = None\<rparr>\<rparr>)"
  by code_simp

text \<open>
  Claim C9.  \<^verbatim>\<open>sort\<close> with the empty key, which is also the default of its argument,
  is \<^verbatim>\<open>sort\<close> with the key \<^verbatim>\<open>cumulative\<close>: it succeeds and leaves the statistics sorted
  by cumulative time.
\<close>

theorem sort_default_cumulative:
  "Stats_sort [] s = Stats_sort ''cumulative'' s
   \<and> Stats_sort [] s = Inr (s\<lparr>stats := (stats s)\<lparr>pst_sort := Some ([(3, - 1)], ''cumulative time'')\<rparr>\<rparr>)"
  by (simp add: Stats_sort_def DEFAULT_SORT_ARG_def sort_stats_def sort_arg_cumulative)

text \<open>The theorem on a session not sorted before.\<close>

theorem sort_default_cumulative_witness:
  "Stats_sort [] \<lparr>profile = ProfileObj, stream = sio_empty,
                   stats = \<lparr>pst_stats = table_one, pst_sort = None\<rparr>\<rparr>
   = Inr \<lparr>profile = ProfileObj, stream = sio_empty,
          stats = \<lparr>pst_stats = table_one, pst_sort = Some ([(3, - 1)], ''cumulative time'')\<rparr>\<rparr>"
  using sort_default_cumulative [of "\<lparr>profile = ProfileObj, stream = sio_empty,
                   stats = \<lparr>pst_stats = table_one, pst_sort = None\<rparr>\<rparr>", THEN conjunct2]
  by simp






end
